theory Spec2Isabelle
  imports Main
begin

section \<open>Patterns of the migration scripts\<close>

text \<open>
  The three scripts (\<^verbatim>\<open>fix_imports.py\<close>, \<^verbatim>\<open>fix_planning_imports.py\<close>,
  \<^verbatim>\<open>update_imports.py\<close>) hand pattern strings to Python's \<^verbatim>\<open>re\<close> module.  Every
  pattern they contain is a sequence of single characters, character classes
  (\<^verbatim>\<open>['"]\<close>, \<^verbatim>\<open>\s\<close>, \<^verbatim>\<open>.\<close>), greedy starred classes (\<^verbatim>\<open>\s*\<close>, \<^verbatim>\<open>.*\<close>) and capturing
  parentheses.  A pattern is represented by this sequence.  Text is a list of
  characters with code points below 256.
\<close>

datatype cclass = Chr char | OneOf "char list" | Space | Dot

text \<open>\<^verbatim>\<open>\s\<close> on text below code point 256; \<^verbatim>\<open>.\<close> is any character but the line feed.\<close>

definition whitespace :: "char list" where
  "whitespace = [CHR 0x09, CHR 0x0A, CHR 0x0B, CHR 0x0C, CHR 0x0D, CHR 0x1C, CHR 0x1D,
                 CHR 0x1E, CHR 0x1F, CHR 0x20, CHR 0x85, CHR 0xA0]"

fun cmatch :: "cclass \<Rightarrow> char \<Rightarrow> bool" where
  "cmatch (Chr c) x = (x = c)"
| "cmatch (OneOf cs) x = List.member cs x"
| "cmatch Space x = List.member whitespace x"
| "cmatch Dot x = (x \<noteq> CHR 0x0A)"

datatype item = One cclass | Star cclass | Open | Close

text \<open>
  \<^verbatim>\<open>re.compile\<close> raises \<^verbatim>\<open>re.error\<close> on unbalanced parentheses; \<open>balanced p 0\<close>
  is the check that a sequence is the compiled form of some pattern string.
\<close>

fun balanced :: "item list \<Rightarrow> nat \<Rightarrow> bool" where
  "balanced [] d = (d = 0)"
| "balanced (Open # r) d = balanced r (Suc d)"
| "balanced (Close # r) d = (0 < d \<and> balanced r (d - 1))"
| "balanced (One c # r) d = balanced r d"
| "balanced (Star c # r) d = balanced r d"

fun ngroups :: "item list \<Rightarrow> nat" where
  "ngroups [] = 0"
| "ngroups (Open # r) = Suc (ngroups r)"
| "ngroups (i # r) = ngroups r"

text \<open>
  Group spans, in the order of the opening parentheses; offsets count from the
  start of the match.  A closing parenthesis ends the innermost open group.
\<close>

type_synonym caps = "(nat \<times> nat option) list"

fun close_group :: "nat \<Rightarrow> caps \<Rightarrow> caps" where
  "close_group n [] = []"
| "close_group n ((b, e) # gs) =
     (if list_ex (\<lambda>g. snd g = None) gs then (b, e) # close_group n gs
      else if e = None then (b, Some n) # gs else (b, e) # gs)"

text \<open>
  The backtracking matcher at one start position: \<open>n\<close> characters are consumed
  so far, \<open>adv\<close> is the engine's \<^verbatim>\<open>must_advance\<close> flag (an empty match is refused).
  A starred class first tries to take one more character and falls back to
  the rest of the pattern.
\<close>

fun match_here :: "item list \<Rightarrow> string \<Rightarrow> nat \<Rightarrow> caps \<Rightarrow> bool \<Rightarrow> (nat \<times> caps) option" where
  "match_here [] s n cs adv = (if adv \<and> n = 0 then None else Some (n, cs))"
| "match_here (One c # r) [] n cs adv = None"
| "match_here (One c # r) (x # xs) n cs adv =
     (if cmatch c x then match_here r xs (Suc n) cs adv else None)"
| "match_here (Star c # r) [] n cs adv = match_here r [] n cs adv"
| "match_here (Star c # r) (x # xs) n cs adv =
     (if cmatch c x then
        (case match_here (Star c # r) xs (Suc n) cs adv of
           Some res \<Rightarrow> Some res
         | None \<Rightarrow> match_here r (x # xs) n cs adv)
      else match_here r (x # xs) n cs adv)"
| "match_here (Open # r) s n cs adv = match_here r s n (cs @ [(n, None)]) adv"
| "match_here (Close # r) s n cs adv = match_here r s n (close_group n cs) adv"

text \<open>
  The search loop shared by \<^verbatim>\<open>re.findall\<close> and \<^verbatim>\<open>re.sub\<close>: leftmost
  non-overlapping matches; after an empty match the same position is tried
  again with \<^verbatim>\<open>must_advance\<close> set.  The result lists, left to right, the
  characters copied unchanged and the matches (matched text and group spans).
\<close>

datatype seg = Gap char | Hit string caps

lemma match_here_bounds:
  "match_here p s n cs adv = Some (m, cs') \<Longrightarrow> n \<le> m \<and> m \<le> n + length s"
proof (induction p s n cs adv arbitrary: m cs' rule: match_here.induct)
  case (5 c r x xs n cs adv)
  then show ?case
    by (fastforce split: if_splits option.splits)
qed (fastforce split: if_splits)+

lemma match_here_adv:
  "match_here p s n cs True = Some (m, cs') \<Longrightarrow> 0 < m"
proof (induction p s n cs True arbitrary: m cs' rule: match_here.induct)
  case (5 c r x xs n cs)
  then show ?case
    using match_here_bounds [of "Star c # r" xs "Suc n" cs True m cs']
    by (fastforce split: if_splits option.splits)
next
  case (3 c r x xs n cs)
  then show ?case
    using match_here_bounds [of r xs "Suc n" cs True m cs']
    by (auto split: if_splits)
qed (auto split: if_splits)

function scan :: "item list \<Rightarrow> string \<Rightarrow> bool \<Rightarrow> seg list" where
  "scan p s adv =
     (case match_here p s 0 [] adv of
        Some (n, cs) \<Rightarrow>
          Hit (take n s) cs # (if n = 0 then scan p s True else scan p (drop n s) False)
      | None \<Rightarrow> (case s of [] \<Rightarrow> [] | x # xs \<Rightarrow> Gap x # scan p xs False))"
  by pat_completeness auto
termination
proof (relation "measure (\<lambda>(p, s, adv). 2 * length s + (if adv then 0 else 1))")
  fix p :: "item list" and s adv x2 n cs
  assume "match_here p s 0 [] adv = Some x2" "(n, cs) = x2" "n = 0"
  then have "\<not> adv" using match_here_adv [of p s 0 "[]" n cs] by auto
  then show "((p, s, True), p, s, adv) \<in> measure (\<lambda>(p, s, adv). 2 * length s + (if adv then 0 else 1))"
    by simp
next
  fix p :: "item list" and s adv x2 n cs
  assume "match_here p s 0 [] adv = Some x2" "(n, cs) = x2" "n \<noteq> 0"
  then have "n \<le> length s" using match_here_bounds [of p s 0 "[]" adv n cs] by auto
  with \<open>n \<noteq> 0\<close> show "((p, drop n s, False), p, s, adv) \<in> measure (\<lambda>(p, s, adv). 2 * length s + (if adv then 0 else 1))"
    by auto
qed auto

declare scan.simps [simp del]

lemma scan_empty:
  "match_here p s 0 [] adv = Some (0, cs) \<Longrightarrow> scan p s adv = Hit [] cs # scan p s True"
  by (subst scan.simps) simp

lemma scan_hit:
  "match_here p s 0 [] adv = Some (Suc n, cs) \<Longrightarrow>
   scan p s adv = Hit (take (Suc n) s) cs # scan p (drop (Suc n) s) False"
  by (subst scan.simps) simp

lemma scan_gap:
  "match_here p (x # xs) 0 [] adv = None \<Longrightarrow> scan p (x # xs) adv = Gap x # scan p xs False"
  by (subst scan.simps) simp

lemma scan_end:
  "match_here p [] 0 [] adv = None \<Longrightarrow> scan p [] adv = []"
  by (subst scan.simps) simp

lemmas scan_eval = scan_empty scan_hit scan_gap scan_end


section \<open>\<^verbatim>\<open>re.findall\<close> and \<^verbatim>\<open>re.sub\<close>\<close>

datatype error = ReadError string | WriteError string | PatternError | TemplateError

text \<open>
  A replacement template is literal text with group references (\<^verbatim>\<open>\1\<close>);
  \<open>Ref 0\<close> is the whole match.  A reference to a group the pattern does not
  have makes \<^verbatim>\<open>re.sub\<close> raise before it searches.
\<close>

datatype tpart = Lit string | Ref nat

fun group_text :: "string \<Rightarrow> caps \<Rightarrow> nat \<Rightarrow> string" where
  "group_text m cs 0 = m"
| "group_text m cs (Suc k) =
     (if k < length cs then
        (case cs ! k of (b, Some e) \<Rightarrow> take (e - b) (drop b m) | (b, None) \<Rightarrow> [])
      else [])"

fun expand :: "tpart list \<Rightarrow> string \<Rightarrow> caps \<Rightarrow> string" where
  "expand [] m cs = []"
| "expand (Lit t # ts) m cs = t @ expand ts m cs"
| "expand (Ref k # ts) m cs = group_text m cs k @ expand ts m cs"

fun template_ok :: "tpart list \<Rightarrow> item list \<Rightarrow> bool" where
  "template_ok [] p = True"
| "template_ok (Lit t # ts) p = template_ok ts p"
| "template_ok (Ref k # ts) p = (k \<le> ngroups p \<and> template_ok ts p)"

fun hits :: "seg list \<Rightarrow> string list" where
  "hits [] = []"
| "hits (Gap x # segs) = hits segs"
| "hits (Hit m cs # segs) = m # hits segs"

fun rebuild :: "tpart list \<Rightarrow> seg list \<Rightarrow> string" where
  "rebuild t [] = []"
| "rebuild t (Gap x # segs) = x # rebuild t segs"
| "rebuild t (Hit m cs # segs) = expand t m cs @ rebuild t segs"

text \<open>
  \<open>re_findall\<close> returns one entry per match (Python returns the text of the
  match, or of its groups when the pattern has some: the same number of
  entries either way, which is all the scripts look at).
\<close>

definition re_findall :: "item list \<Rightarrow> string \<Rightarrow> error + string list" where
  "re_findall p s = (if \<not> balanced p 0 then Inl PatternError else Inr (hits (scan p s False)))"

definition re_sub :: "item list \<Rightarrow> tpart list \<Rightarrow> string \<Rightarrow> error + string" where
  "re_sub p t s =
     (if \<not> balanced p 0 then Inl PatternError
      else if \<not> template_ok t p then Inl TemplateError
      else Inr (rebuild t (scan p s False)))"

section \<open>\<^verbatim>\<open>fix_imports.py\<close>\<close>

text \<open>
  A rule is the source's triple (pattern, replacement, description).  The
  source stores a change as the line \<^verbatim>\<open>- <description>: <n> occurrence(s)\<close>;
  a change is kept here as the pair that line is printed from.
\<close>

type_synonym rule = "item list \<times> tpart list \<times> string"
type_synonym change = "string \<times> nat"

definition lit :: "string \<Rightarrow> item list" where
  "lit s = map (\<lambda>c. One (Chr c)) s"

definition quote :: item where
  "quote = One (OneOf [CHR 0x27, CHR 0x22])"

definition from_rule :: "string \<Rightarrow> string \<Rightarrow> string \<Rightarrow> rule" where
  \<open>from_rule old new descr =
     (lit ''from '' @ [quote] @ lit old @ [quote], [Lit (''from "'' @ new @ ''"'')], descr)\<close>

definition import_rule :: "string \<Rightarrow> string \<Rightarrow> string \<Rightarrow> string \<Rightarrow> rule" where
  \<open>import_rule what old new descr =
     (lit (''import { '' @ what @ '' } from '') @ [quote] @ lit old @ [quote],
      [Lit (''import { '' @ what @ '' } from "'' @ new @ ''"'')], descr)\<close>

definition IMPORT_RULES :: "rule list" where
  \<open>IMPORT_RULES =
    [from_rule ''../lib/firebase/config'' ''../../../lib/firebase/config'' ''Firebase config (features)'',
     import_rule ''db'' ''../lib/firebase/config'' ''../../../lib/firebase/config'' ''Firebase db import (features)'',
     from_rule ''../../lib/firebase/config'' ''../../lib/firebase/config'' ''Firebase config (context)'',
     import_rule ''db'' ''../../lib/firebase/config'' ''../../lib/firebase/config'' ''Firebase db import (context)'',
     (lit ''import { db } from '' @ [quote] @ lit ''../../../lib/firebase/config'' @ [quote],
      [Lit ''from "../../lib/firebase/config"''], ''Firebase db import (context)''),
     from_rule ''../hooks/useAuth'' ''../../../features/auth/hooks'' ''useAuth hook'',
     from_rule ''../../hooks/useAuth'' ''../../../features/auth/hooks'' ''useAuth hook'',
     from_rule ''../useAuth'' ''../../../features/auth/hooks'' ''useAuth hook'',
     from_rule ''./useAuth'' ''../../../features/auth/hooks'' ''useAuth hook'',
     import_rule ''useAuth'' ''../useAuth'' ''../../../features/auth/hooks'' ''useAuth import'',
     import_rule ''useAuth'' ''./useAuth'' ''../../../features/auth/hooks'' ''useAuth import'',
     from_rule ''../hooks/useDesiderata'' ''../../../features/planning/hooks/useDesiderata'' ''useDesiderata hook'',
     from_rule ''../../hooks/useDesiderata'' ''../../../features/planning/hooks/useDesiderata'' ''useDesiderata hook'',
     from_rule ''../useDesiderata'' ''../../../features/planning/hooks/useDesiderata'' ''useDesiderata hook'',
     from_rule ''./useDesiderata'' ''../../../features/planning/hooks/useDesiderata'' ''useDesiderata hook'',
     from_rule ''../hooks/useDesiderataState'' ''../../../features/planning/hooks/useDesiderataState'' ''useDesiderataState hook'',
     from_rule ''../../hooks/useDesiderataState'' ''../../../features/planning/hooks/useDesiderataState'' ''useDesiderataState hook'',
     from_rule ''../useDesiderataState'' ''../../../features/planning/hooks/useDesiderataState'' ''useDesiderataState hook'',
     from_rule ''./useDesiderataState'' ''../../../features/planning/hooks/useDesiderataState'' ''useDesiderataState hook'',
     from_rule ''../hooks/usePlanningPeriod'' ''../../../features/planning/hooks/usePlanningPeriod'' ''usePlanningPeriod hook'',
     from_rule ''../hooks/useShiftAssignments'' ''../../../features/planning/hooks/useShiftAssignments'' ''useShiftAssignments hook'',
     from_rule ''../hooks/useUserAssignments'' ''../../../features/users/hooks/useUserAssignments'' ''useUserAssignments hook'',
     from_rule ''../hooks/useCachedUserData'' ''../../../features/users/hooks/useCachedUserData'' ''useCachedUserData hook'']\<close>

text \<open>
  The loop of \<^verbatim>\<open>process_file\<close> over the rules (lines 94 to 102), with the
  registry as a parameter; \<open>content\<close> and \<open>changes\<close> are the loop's variables.
\<close>

fun apply_rules :: "rule list \<Rightarrow> string \<Rightarrow> change list \<Rightarrow> error + (string \<times> change list)" where
  "apply_rules [] content changes = Inr (content, changes)"
| "apply_rules ((pat, repl, descr) # rules) content changes =
     (case re_findall pat content of
        Inl e \<Rightarrow> Inl e
      | Inr matches \<Rightarrow>
          if matches \<noteq> [] then
            (case re_sub pat repl content of
               Inl e \<Rightarrow> Inl e
             | Inr new_content \<Rightarrow>
                 if new_content \<noteq> content
                 then apply_rules rules new_content (changes @ [(descr, length matches)])
                 else apply_rules rules content changes)
          else apply_rules rules content changes)"

text \<open>
  The file system as the scripts see it: \<open>data\<close> gives the text that reading
  a path returns (\<open>None\<close>: opening it for reading raises), \<open>locked\<close> holds the
  paths that cannot be opened for writing, \<open>written\<close> logs every write.
\<close>

record filesystem =
  data :: "string \<rightharpoonup> string"
  locked :: "string set"
  written :: "string list"

definition fs_read :: "filesystem \<Rightarrow> string \<Rightarrow> error + string" where
  "fs_read fs path = (case data fs path of None \<Rightarrow> Inl (ReadError path) | Some c \<Rightarrow> Inr c)"

definition fs_write :: "filesystem \<Rightarrow> string \<Rightarrow> string \<Rightarrow> error + filesystem" where
  "fs_write fs path c =
     (if path \<in> locked fs then Inl (WriteError path)
      else Inr (fs\<lparr>data := (data fs)(path \<mapsto> c), written := written fs @ [path]\<rparr>))"

text \<open>A filesystem holding the given files, none of them write-protected, nothing written yet.\<close>

definition fs_of :: "(string \<times> string) list \<Rightarrow> filesystem" where
  "fs_of files = \<lparr>data = map_of files, locked = {}, written = []\<rparr>"

definition process_file ::
  "rule list \<Rightarrow> filesystem \<Rightarrow> string \<Rightarrow> bool \<Rightarrow> error + ((bool \<times> change list) \<times> filesystem)" where
  "process_file rules fs file_path dry_run =
     (case fs_read fs file_path of
        Inl e \<Rightarrow> Inl e
      | Inr original_content \<Rightarrow>
          (case apply_rules rules original_content [] of
             Inl e \<Rightarrow> Inl e
           | Inr (content, changes) \<Rightarrow>
               if content \<noteq> original_content \<and> \<not> dry_run then
                 (case fs_write fs file_path content of
                    Inl e \<Rightarrow> Inl e
                  | Inr fs' \<Rightarrow> Inr ((True, changes), fs'))
               else Inr ((content \<noteq> original_content, changes), fs)))"


text \<open>
  \<^verbatim>\<open>find_typescript_files\<close>: a directory is the list of its entries in the order
  the operating system lists them.  \<^verbatim>\<open>Path(root).rglob('*' + ext)\<close> yields, for
  the root and then for every directory below it, the entries whose name ends
  with \<open>ext\<close>; the matching is on the name alone.
\<close>

datatype node = File string | Dir string "node list"

fun node_name :: "node \<Rightarrow> string" where
  "node_name (File name) = name"
| "node_name (Dir name entries) = name"

definition ends_with :: "string \<Rightarrow> string \<Rightarrow> bool" where
  "ends_with ext name =
     (length ext \<le> length name \<and> drop (length name - length ext) name = ext)"

definition join :: "string \<Rightarrow> string \<Rightarrow> string" where
  "join dir name = dir @ ''/'' @ name"

fun rglob :: "string \<Rightarrow> node list \<Rightarrow> string \<Rightarrow> string list"
  and rglob_below :: "string \<Rightarrow> node list \<Rightarrow> string \<Rightarrow> string list" where
  "rglob dir entries ext =
     map (\<lambda>k. join dir (node_name k)) (filter (\<lambda>k. ends_with ext (node_name k)) entries)
     @ rglob_below dir entries ext"
| "rglob_below dir [] ext = []"
| "rglob_below dir (File name # entries) ext = rglob_below dir entries ext"
| "rglob_below dir (Dir name sub # entries) ext =
     rglob (join dir name) sub ext @ rglob_below dir entries ext"

definition FILE_EXTENSIONS :: "string list" where
  "FILE_EXTENSIONS = [''.ts'', ''.tsx'', ''.js'', ''.jsx'']"

definition find_typescript_files :: "string \<Rightarrow> node list \<Rightarrow> string list" where
  "find_typescript_files root_dir entries =
     concat (map (\<lambda>ext. rglob root_dir entries ext) FILE_EXTENSIONS)"

text \<open>
  \<^verbatim>\<open>main\<close>: the loop over the discovered files (lines 132 to 143) with its two
  counters and the lines printed per modified file, then the summary (the
  three printed totals and the per-file listing, as a \<open>report\<close>).  An
  exception of \<^verbatim>\<open>process_file\<close> is caught nowhere and ends the run.
\<close>

record report =
  filesScanned :: nat
  filesModified :: nat
  totalChanges :: nat
  perFile :: "(string \<times> change list) list"

fun main_loop ::
  "rule list \<Rightarrow> bool \<Rightarrow> string list \<Rightarrow> filesystem \<Rightarrow> nat \<Rightarrow> nat \<Rightarrow> (string \<times> change list) list
    \<Rightarrow> (error + nat \<times> nat \<times> (string \<times> change list) list) \<times> filesystem" where
  "main_loop rules dry_run [] fs modified_files total_changes out =
     (Inr (modified_files, total_changes, out), fs)"
| "main_loop rules dry_run (file_path # files) fs modified_files total_changes out =
     (case process_file rules fs file_path dry_run of
        Inl e \<Rightarrow> (Inl e, fs)
      | Inr ((modified, changes), fs') \<Rightarrow>
          if modified
          then main_loop rules dry_run files fs' (modified_files + 1)
                 (total_changes + length changes) (out @ [(file_path, changes)])
          else main_loop rules dry_run files fs' modified_files total_changes out)"

definition main ::
  "rule list \<Rightarrow> string \<Rightarrow> node list \<Rightarrow> filesystem \<Rightarrow> bool \<Rightarrow> (error + report) \<times> filesystem" where
  "main rules root_dir entries fs dry_run =
     (let files = find_typescript_files root_dir entries in
      case main_loop rules dry_run files fs 0 0 [] of
        (Inl e, fs') \<Rightarrow> (Inl e, fs')
      | (Inr (modified_files, total_changes, out), fs') \<Rightarrow>
          (Inr \<lparr>filesScanned = length files, filesModified = modified_files,
                totalChanges = total_changes, perFile = out\<rparr>, fs'))"

section \<open>\<^verbatim>\<open>fix_planning_imports.py\<close>\<close>

definition grouped_from :: "string \<Rightarrow> string \<Rightarrow> item list \<times> tpart list" where
  \<open>grouped_from old new =
     (lit ''from '' @ [quote, Open] @ lit old @ [Close, quote], [Lit (''from "'' @ new @ ''"'')])\<close>

definition replacements :: "(item list \<times> tpart list) list" where
  \<open>replacements =
    [grouped_from ''../context/shiftExchange'' ''../../../context/shiftExchange'',
     grouped_from ''../context/planning/PlanningContext'' ''../../../context/planning/PlanningContext'',
     grouped_from ''../components/common/Switch'' ''../components/common/Switch'',
     grouped_from ''../components/common/LoadingSpinner'' ''../components/common/LoadingSpinner'',
     grouped_from ''../components/planning/PlanningTutorial'' ''../components/PlanningTutorial'',
     grouped_from ''../components/Toast'' ''../../../components/Toast'',
     (lit ''import '' @ [Open, Star Dot, Close] @ lit '' from '' @ [quote, Open]
        @ lit ''../components/planning/GeneratedPlanningTable'' @ [Close, quote],
      [Lit ''import '', Ref 1, Lit '' from "../components/GeneratedPlanningTable"'']),
     grouped_from ''../types/planning'' ''../types'',
     grouped_from ''../utils/timeUtils'' ''../utils/timeUtils'',
     grouped_from ''../utils/lazyExporters'' ''../utils/lazyExporters'',
     grouped_from ''../lib/firebase/desiderata'' ''../../../lib/firebase/desiderata'']\<close>

fun sub_all :: "(item list \<times> tpart list) list \<Rightarrow> string \<Rightarrow> error + string" where
  "sub_all [] content = Inr content"
| "sub_all ((pat, repl) # rest) content =
     (case re_sub pat repl content of Inl e \<Rightarrow> Inl e | Inr content' \<Rightarrow> sub_all rest content')"

definition fix_imports :: "filesystem \<Rightarrow> string \<Rightarrow> error + filesystem" where
  "fix_imports fs file_path =
     (case fs_read fs file_path of
        Inl e \<Rightarrow> Inl e
      | Inr content \<Rightarrow>
          (case sub_all replacements content of
             Inl e \<Rightarrow> Inl e
           | Inr content' \<Rightarrow> fs_write fs file_path content'))"

section \<open>\<^verbatim>\<open>update_imports.py\<close>\<close>

definition useAuth_pattern :: "item list" where
  \<open>useAuth_pattern =
     lit ''import'' @ [Star Space, One (Chr CHR ''{''), Star Space] @ lit ''useAuth''
     @ [Star Space, One (Chr CHR ''}''), Star Space] @ lit ''from''
     @ [Star Space, quote, Open, Star Dot] @ lit ''/hooks/useAuth'' @ [Close, quote]\<close>

text \<open>
  Lines 15 to 22: \<open>depth\<close> is a Python integer and may be \<open>-1\<close>; repeating a
  string a negative number of times gives the empty string.
\<close>

definition depth_of :: "string \<Rightarrow> int" where
  "depth_of file_path = int (count_list file_path CHR ''/'') - 1"

definition rel_path :: "string \<Rightarrow> string" where
  "rel_path file_path = concat (replicate (nat (depth_of file_path)) ''../'')"

definition replacement :: "string \<Rightarrow> string" where
  \<open>replacement file_path =
     ''import { useAuth } from '' @ [CHR 0x27] @ rel_path file_path @ ''features/auth/hooks'' @ [CHR 0x27]\<close>

definition update_imports_in_file :: "filesystem \<Rightarrow> string \<Rightarrow> error + (bool \<times> filesystem)" where
  "update_imports_in_file fs file_path =
     (case fs_read fs file_path of
        Inl e \<Rightarrow> Inl e
      | Inr content \<Rightarrow>
          (case re_sub useAuth_pattern [Lit (replacement file_path)] content of
             Inl e \<Rightarrow> Inl e
           | Inr new_content \<Rightarrow>
               if new_content \<noteq> content then
                 (case fs_write fs file_path new_content of
                    Inl e \<Rightarrow> Inl e
                  | Inr fs' \<Rightarrow> Inr (True, fs'))
               else Inr (False, fs)))"


section \<open>The search loop only touches the matches\<close>

text \<open>
  Three readings of a segment list: the text it was cut from, the text with
  every match replaced by one fixed string, and the number of characters
  outside the matches.
\<close>

fun original :: "seg list \<Rightarrow> string" where
  "original [] = []"
| "original (Gap x # segs) = x # original segs"
| "original (Hit m cs # segs) = m @ original segs"

fun replaced_by :: "string \<Rightarrow> seg list \<Rightarrow> string" where
  "replaced_by r [] = []"
| "replaced_by r (Gap x # segs) = x # replaced_by r segs"
| "replaced_by r (Hit m cs # segs) = r @ replaced_by r segs"

fun gaps :: "seg list \<Rightarrow> nat" where
  "gaps [] = 0"
| "gaps (Gap x # segs) = Suc (gaps segs)"
| "gaps (Hit m cs # segs) = gaps segs"

text \<open>
  What a run lists: the files \<open>process_file\<close> reports as modified, each
  with its changes, in the order of the loop of \<^verbatim>\<open>main\<close>, on the filesystem as
  the earlier files left it.
\<close>

fun listed :: "rule list \<Rightarrow> bool \<Rightarrow> filesystem \<Rightarrow> string list \<Rightarrow> (string \<times> change list) list" where
  "listed rules dry_run fs [] = []"
| "listed rules dry_run fs (f # files) =
     (case process_file rules fs f dry_run of
        Inl e \<Rightarrow> []
      | Inr ((modified, changes), fs') \<Rightarrow>
          (if modified then [(f, changes)] else []) @ listed rules dry_run fs' files)"

text \<open>The sum of the occurrence counts over all changes a report lists.\<close>

definition total_occurrences :: "report \<Rightarrow> nat" where
  "total_occurrences rep = sum_list (map snd (concat (map snd (perFile rep))))"

lemmas eval_simps = re_findall_def re_sub_def lit_def quote_def scan_eval from_rule_def
  import_rule_def grouped_from_def fs_read_def fs_write_def process_file_def

lemmas run_simps = main_def find_typescript_files_def FILE_EXTENSIONS_def ends_with_def join_def
  fs_of_def eval_simps whitespace_def

lemmas update_simps = update_imports_in_file_def useAuth_pattern_def replacement_def rel_path_def
  depth_of_def fs_of_def eval_simps whitespace_def

lemma scan_original: "original (scan p s adv) = s"
proof (induction p s adv rule: scan.induct)
  case (1 p s adv)
  show ?case
  proof (cases "match_here p s 0 [] adv")
    case None
    show ?thesis
    proof (cases s)
      case Nil
      with None show ?thesis by (simp add: scan_end)
    next
      case (Cons x xs)
      with None "1.IH" show ?thesis by (simp add: scan_gap)
    qed
  next
    case (Some res)
    obtain n cs where res: "res = (n, cs)" by (cases res)
    show ?thesis
    proof (cases n)
      case 0
      then show ?thesis
        using "1.IH" Some res by (simp add: scan_empty)
    next
      case (Suc k)
      then show ?thesis
        using "1.IH" Some res by (simp add: scan_hit)
    qed
  qed
qed

lemma rebuild_Lit: "rebuild [Lit r] segs = replaced_by r segs"
  by (induction segs rule: hits.induct) simp_all

lemma length_replaced_by:
  "length (replaced_by r segs) = gaps segs + length (hits segs) * length r"
  by (induction segs rule: hits.induct) simp_all

section \<open>The Rule Applier\<close>

lemma apply_rules_snoc:
  "apply_rules (rules @ [(pat, repl, descr)]) content changes =
     (case apply_rules rules content changes of
        Inl e \<Rightarrow> Inl e
      | Inr (current, chs) \<Rightarrow>
          (case re_findall pat current of
             Inl e \<Rightarrow> Inl e
           | Inr matches \<Rightarrow>
               if matches = [] then Inr (current, chs)
               else (case re_sub pat repl current of
                       Inl e \<Rightarrow> Inl e
                     | Inr new \<Rightarrow>
                         if new = current then Inr (current, chs)
                         else Inr (new, chs @ [(descr, length matches)]))))"
  by (induction rules content changes rule: apply_rules.induct) (auto split: sum.splits)

lemma findall_sub_segments:
  assumes "re_findall pat current = Inr matches" and "re_sub pat repl current = Inr new"
  shows "original (scan pat current False) = current"
    and "hits (scan pat current False) = matches"
    and "rebuild repl (scan pat current False) = new"
  using assms by (simp_all add: scan_original re_findall_def re_sub_def split: if_splits)

text \<open>
  C1, as the source has it.  The loop starts from the file's content and an
  empty change list; a rule appended to a registry works on the content the
  earlier rules produced.  It leaves content and change list as they are when
  its pattern has no match there, or when substituting every match gives the
  same text back (the source's test \<^verbatim>\<open>new_content != content\<close>); otherwise
  the content becomes the substituted text and exactly one entry, the rule's
  description with the number of matches, is appended.  The matches and the
  substituted text come from one cut of the content into matches and
  untouched characters.
\<close>

theorem apply_rules_cascade:
  "apply_rules [] content changes = Inr (content, changes) \<and>
   apply_rules (rules @ [(pat, repl, descr)]) content changes =
     (case apply_rules rules content changes of
        Inl e \<Rightarrow> Inl e
      | Inr (current, chs) \<Rightarrow>
          (case re_findall pat current of
             Inl e \<Rightarrow> Inl e
           | Inr matches \<Rightarrow>
               if matches = [] then Inr (current, chs)
               else (case re_sub pat repl current of
                       Inl e \<Rightarrow> Inl e
                     | Inr new \<Rightarrow>
                         if new = current then Inr (current, chs)
                         else Inr (new, chs @ [(descr, length matches)])))) \<and>
   (re_findall pat body = Inr found \<and> re_sub pat repl body = Inr subst \<longrightarrow>
      original (scan pat body False) = body \<and> hits (scan pat body False) = found \<and>
      rebuild repl (scan pat body False) = subst)"
proof -
  have "apply_rules [] content changes = Inr (content, changes)"
    by simp
  moreover note apply_rules_snoc [of rules pat repl descr content changes]
  moreover have "re_findall pat body = Inr found \<and> re_sub pat repl body = Inr subst \<longrightarrow>
      original (scan pat body False) = body \<and> hits (scan pat body False) = found \<and>
      rebuild repl (scan pat body False) = subst"
    using findall_sub_segments [of pat body found repl subst] by blast
  ultimately show ?thesis by blast
qed

theorem apply_rules_cascade_witness:
  \<open>apply_rules ([] @ [(lit ''a'', [Lit ''b''], ''d'')]) ''aXa'' [] = Inr (''bXb'', [(''d'', 2)]) \<and>
   re_findall (lit ''a'') ''aXa'' = Inr [''a'', ''a''] \<and>
   re_sub (lit ''a'') [Lit ''b''] ''aXa'' = Inr ''bXb'' \<and>
   original (scan (lit ''a'') ''aXa'' False) = ''aXa'' \<and>
   hits (scan (lit ''a'') ''aXa'' False) = [''a'', ''a'']\<close>
  using apply_rules_cascade [of "''aXa''" "[]" "[]" "lit ''a''" "[Lit ''b'']" "''d''"
      "''aXa''" "[''a'', ''a'']" "''bXb''"]
  by (simp add: eval_simps)

text \<open>
  C1 as stated fails on the script's own registry: the third rule of
  \<open>IMPORT_RULES\<close> matches the double-quoted import below once, the
  substitution gives the same text, and no change is recorded.
\<close>

theorem match_without_change_entry:
  \<open>re_findall (fst (IMPORT_RULES ! 2)) ''from "../../lib/firebase/config"''
     = Inr [''from "../../lib/firebase/config"''] \<and>
   apply_rules IMPORT_RULES ''from "../../lib/firebase/config"'' []
     = Inr (''from "../../lib/firebase/config"'', [])\<close>
  by (simp add: eval_simps IMPORT_RULES_def)


lemma apply_rules_single:
  "apply_rules [(p, t, d)] mid [] =
     (case re_findall p mid of
        Inl e \<Rightarrow> Inl e
      | Inr ms \<Rightarrow>
          if ms = [] then Inr (mid, [])
          else (case re_sub p t mid of
                  Inl e \<Rightarrow> Inl e
                | Inr new \<Rightarrow> if new = mid then Inr (mid, []) else Inr (new, [(d, length ms)])))"
  by (simp split: sum.splits)

lemma apply_rules_snoc_Inr:
  assumes "apply_rules (pre @ [r]) content chs0 = Inr (out, chs)"
  shows "\<exists>mid c1 c2. apply_rules pre content chs0 = Inr (mid, c1) \<and>
           apply_rules [r] mid [] = Inr (out, c2)"
proof -
  obtain p t d where r: "r = (p, t, d)" by (cases r)
  show ?thesis
  proof (cases "apply_rules pre content chs0")
    case (Inl e)
    with assms show ?thesis by (simp add: r apply_rules_snoc)
  next
    case (Inr res)
    obtain mid c1 where res: "res = (mid, c1)" by (cases res)
    have "\<exists>c2. apply_rules [(p, t, d)] mid [] = Inr (out, c2)"
      using assms Inr res unfolding r apply_rules_snoc apply_rules_single
      by (simp split: sum.splits if_splits)
    with Inr res r show ?thesis by blast
  qed
qed

lemma settled_after_run:
  assumes step: "\<And>j i s s' c. j < length rules \<Longrightarrow> i \<le> j \<Longrightarrow> i = j \<or> S (rules ! i) s \<Longrightarrow>
            apply_rules [rules ! j] s [] = Inr (s', c) \<Longrightarrow> S (rules ! i) s'"
    and run: "apply_rules rules content chs0 = Inr (out, chs)"
  shows "\<forall>i<length rules. S (rules ! i) out"
  using assms
proof (induction rules arbitrary: out chs rule: rev_induct)
  case Nil
  then show ?case by simp
next
  case (snoc r pre)
  obtain mid c1 c2 where pre: "apply_rules pre content chs0 = Inr (mid, c1)"
    and last: "apply_rules [r] mid [] = Inr (out, c2)"
    using apply_rules_snoc_Inr [OF snoc.prems(2)] by blast
  have mid: "\<forall>i<length pre. S (pre ! i) mid"
  proof (rule snoc.IH [OF _ pre])
    fix j i s s' c
    assume "j < length pre" "i \<le> j" "i = j \<or> S (pre ! i) s"
      "apply_rules [pre ! j] s [] = Inr (s', c)"
    then show "S (pre ! i) s'"
      using snoc.prems(1) [of j i s s' c] by (simp add: nth_append)
  qed
  show ?case
  proof (intro allI impI)
    fix i assume "i < length (pre @ [r])"
    then consider "i < length pre" | "i = length pre" by fastforce
    then show "S ((pre @ [r]) ! i) out"
    proof cases
      case 1
      then have "S ((pre @ [r]) ! i) mid" using mid by (simp add: nth_append)
      then show ?thesis
        using snoc.prems(1) [of "length pre" i mid out c2] 1 last by simp
    next
      case 2
      then show ?thesis
        using snoc.prems(1) [of "length pre" i mid out c2] last by simp
    qed
  qed
qed

lemma apply_rules_fixed:
  "\<forall>(p, t, d) \<in> set rules. re_findall p out = Inr [] \<Longrightarrow>
   apply_rules rules out changes = Inr (out, changes)"
  by (induction rules out changes rule: apply_rules.induct) auto

lemma apply_rules_unchanged:
  "\<forall>r \<in> set rules. apply_rules [r] out [] = Inr (out, []) \<Longrightarrow>
   apply_rules rules out changes = Inr (out, changes)"
  by (induction rules out changes rule: apply_rules.induct) (auto split: sum.splits if_splits)

text \<open>
  Rules that replace one character by another, used to instantiate the
  fixed-point theorem below.
\<close>

lemma scan_char:
  "scan [One (Chr x)] s False = map (\<lambda>c. if c = x then Hit [x] [] else Gap c) s"
  by (induction s) (simp_all add: scan_eval)

lemma findall_char:
  "re_findall (lit [x]) s = Inr [] \<longleftrightarrow> x \<notin> set s"
  by (induction s) (simp_all add: re_findall_def lit_def scan_char)

lemma sub_char:
  "re_sub (lit [x]) [Lit [y]] s = Inr (map (\<lambda>c. if c = x then y else c) s)"
  by (induction s) (simp_all add: re_sub_def lit_def scan_char)

lemma map_char_id: "x \<notin> set s \<Longrightarrow> map (\<lambda>c. if c = x then y else c) s = s"
  by (induction s) auto

lemma char_rule:
  assumes "apply_rules [(lit [x], [Lit [y]], d)] s [] = Inr (s', c)"
  shows "s' = map (\<lambda>c. if c = x then y else c) s"
  using assms unfolding apply_rules_single sub_char
  by (auto split: sum.splits if_splits simp: findall_char map_char_id)


text \<open>
  C7, amended.  The condition on the rule set has to take the text around a
  replacement into account.  Suppose that, on every text, the result of a
  rule's step of the loop has no match of the rule's own pattern, and no match
  of an earlier rule's pattern unless that pattern already had a match in the
  text the step started from.  Then, in the output of a first application, no
  pattern of the registry has a match, and a second application to that output
  records no change and returns it as it is.
\<close>

theorem second_run_is_fixed_point:
  assumes "\<forall>j<length rules. \<forall>i\<le>j. \<forall>s s' c.
             (i = j \<or> re_findall (fst (rules ! i)) s = Inr []) \<longrightarrow>
             apply_rules [rules ! j] s [] = Inr (s', c) \<longrightarrow>
             re_findall (fst (rules ! i)) s' = Inr []"
    and "apply_rules rules content [] = Inr (out, chs)"
  shows "(\<forall>(p, t, d) \<in> set rules. re_findall p out = Inr []) \<and>
         apply_rules rules out [] = Inr (out, [])"
proof -
  have "\<forall>i<length rules. re_findall (fst (rules ! i)) out = Inr []"
    using settled_after_run [where S = "\<lambda>r s. re_findall (fst r) s = Inr []", OF _ assms(2)]
      assms(1) by blast
  then have quiet: "\<forall>(p, t, d) \<in> set rules. re_findall p out = Inr []"
    by (auto simp: in_set_conv_nth) (metis fst_conv)
  with apply_rules_fixed [OF quiet] show ?thesis by blast
qed


theorem second_run_is_fixed_point_witness:
  \<open>apply_rules [(lit ''a'', [Lit ''b''], ''A''), (lit ''b'', [Lit ''c''], ''B'')] ''ab'' []
     = Inr (''cc'', [(''A'', 1), (''B'', 2)]) \<and>
   re_findall (lit ''a'') ''cc'' = Inr [] \<and>
   re_findall (lit ''b'') ''cc'' = Inr [] \<and>
   apply_rules [(lit ''a'', [Lit ''b''], ''A''), (lit ''b'', [Lit ''c''], ''B'')] ''cc'' []
     = Inr (''cc'', [])\<close>
proof -
  let ?R = \<open>[(lit ''a'', [Lit ''b''], ''A''), (lit ''b'', [Lit ''c''], ''B'')]\<close>
  have first: \<open>apply_rules ?R ''ab'' [] = Inr (''cc'', [(''A'', 1), (''B'', 2)])\<close>
    by (simp add: eval_simps)
  have settle: "\<forall>j<length ?R. \<forall>i\<le>j. \<forall>s s' c.
      (i = j \<or> re_findall (fst (?R ! i)) s = Inr []) \<longrightarrow>
      apply_rules [?R ! j] s [] = Inr (s', c) \<longrightarrow>
      re_findall (fst (?R ! i)) s' = Inr []"
  proof (intro allI impI)
    fix j i s s' c
    assume j: "j < length ?R" and i: "i \<le> j"
      and before: "i = j \<or> re_findall (fst (?R ! i)) s = Inr []"
      and run: "apply_rules [?R ! j] s [] = Inr (s', c)"
    from j i consider "j = 0" "i = 0" | "j = 1" "i = 0" | "j = 1" "i = 1"
      by (cases j; cases i) auto
    then show "re_findall (fst (?R ! i)) s' = Inr []"
    proof cases
      case 1
      with run show ?thesis
        using char_rule [of "CHR ''a''" "CHR ''b''" "''A''" s s' c]
        by (auto simp: findall_char)
    next
      case 2
      with run before show ?thesis
        using char_rule [of "CHR ''b''" "CHR ''c''" "''B''" s s' c]
        by (auto simp: findall_char)
    next
      case 3
      with run show ?thesis
        using char_rule [of "CHR ''b''" "CHR ''c''" "''B''" s s' c]
        by (auto simp: findall_char)
    qed
  qed
  from second_run_is_fixed_point [OF settle first] first show ?thesis
    by simp
qed

text \<open>
  The same argument with ``the rule's step changes nothing'' in place of
  ``the pattern has no match'': it covers registries with rules such as the
  third of \<open>IMPORT_RULES\<close>, whose replacement is matched by its own pattern
  and is put back unchanged.
\<close>

lemma second_run_records_no_change:
  assumes "\<forall>j<length rules. \<forall>i\<le>j. \<forall>s s' c.
             (i = j \<or> apply_rules [rules ! i] s [] = Inr (s, [])) \<longrightarrow>
             apply_rules [rules ! j] s [] = Inr (s', c) \<longrightarrow>
             apply_rules [rules ! i] s' [] = Inr (s', [])"
    and "apply_rules rules content [] = Inr (out, chs)"
  shows "apply_rules rules out [] = Inr (out, [])"
proof -
  have "\<forall>i<length rules. apply_rules [rules ! i] out [] = Inr (out, [])"
    using settled_after_run [where S = "\<lambda>r s. apply_rules [r] s [] = Inr (s, [])", OF _ assms(2)]
      assms(1) by blast
  then have "\<forall>r \<in> set rules. apply_rules [r] out [] = Inr (out, [])"
    by (metis in_set_conv_nth)
  then show ?thesis by (rule apply_rules_unchanged)
qed

text \<open>
  C7 as stated fails.  The one rule \<^verbatim>\<open>ab\<close> \<rightarrow> \<^verbatim>\<open>b\<close> has a replacement in which
  its pattern has no match, yet on \<^verbatim>\<open>aab\<close> the first application gives \<^verbatim>\<open>ab\<close>,
  where the replacement and the character before it form a new match, and the
  second application rewrites again.
\<close>

theorem second_run_rewrites_again:
  \<open>re_findall (lit ''ab'') ''b'' = Inr [] \<and>
   apply_rules [(lit ''ab'', [Lit ''b''], ''d'')] ''aab'' [] = Inr (''ab'', [(''d'', 1)]) \<and>
   apply_rules [(lit ''ab'', [Lit ''b''], ''d'')] ''ab'' [] = Inr (''b'', [(''d'', 1)])\<close>
  by (simp add: eval_simps)

lemma order_fixture:
  \<open>re_findall (lit ''b'') ''b'' = Inr [''b''] \<and>
   apply_rules [(lit ''a'', [Lit ''b''], ''A''), (lit ''b'', [Lit ''c''], ''B'')] ''a'' []
     = Inr (''c'', [(''A'', 1), (''B'', 1)]) \<and>
   apply_rules [(lit ''b'', [Lit ''c''], ''B''), (lit ''a'', [Lit ''b''], ''A'')] ''a'' []
     = Inr (''b'', [(''A'', 1)])\<close>
  by (simp add: eval_simps)

text \<open>
  C8.  There are rules A (\<open>P1\<close> \<rightarrow> \<open>R1\<close>) and B (\<open>P2\<close> \<rightarrow> \<open>R2\<close>), with a
  match of \<open>P2\<close> in \<open>R1\<close>, and a content on which the registries [A, B] and
  [B, A] give different texts.  The fixture is A = \<^verbatim>\<open>a\<close> \<rightarrow> \<^verbatim>\<open>b\<close>,
  B = \<^verbatim>\<open>b\<close> \<rightarrow> \<^verbatim>\<open>c\<close> on the content \<^verbatim>\<open>a\<close>: [A, B] gives \<^verbatim>\<open>c\<close>, [B, A]
  gives \<^verbatim>\<open>b\<close>.
\<close>

theorem rule_order_changes_result:
  \<open>\<exists>P1 R1 P2 R2 content m ms out1 out2.
     re_findall P2 R1 = Inr (m # ms) \<and>
     apply_rules [(P1, [Lit R1], ''A''), (P2, [Lit R2], ''B'')] content [] = Inr out1 \<and>
     apply_rules [(P2, [Lit R2], ''B''), (P1, [Lit R1], ''A'')] content [] = Inr out2 \<and>
     fst out1 \<noteq> fst out2\<close>
proof -
  have \<open>re_findall (lit ''b'') ''b'' = Inr (''b'' # []) \<and>
     apply_rules [(lit ''a'', [Lit ''b''], ''A''), (lit ''b'', [Lit ''c''], ''B'')] ''a'' []
       = Inr (''c'', [(''A'', 1), (''B'', 1)]) \<and>
     apply_rules [(lit ''b'', [Lit ''c''], ''B''), (lit ''a'', [Lit ''b''], ''A'')] ''a'' []
       = Inr (''b'', [(''A'', 1)]) \<and>
     fst (''c'', [(''A'', 1::nat), (''B'', 1)]) \<noteq> fst (''b'', [(''A'', 1::nat)])\<close>
    using order_fixture by simp
  then show ?thesis by blast
qed

section \<open>The File Discoverer\<close>

text \<open>
  C9 fails on the code.  \<^verbatim>\<open>rglob\<close> selects by name only, so a directory whose
  name ends in one of the extensions is returned among the files: under
  \<^verbatim>\<open>src\<close>, the empty directory \<^verbatim>\<open>chart.js\<close> beside the file \<^verbatim>\<open>a.ts\<close> is listed.
\<close>

theorem find_typescript_files_returns_directory:
  \<open>find_typescript_files ''src'' [Dir ''chart.js'' [], File ''a.ts'']
     = [''src/a.ts'', ''src/chart.js'']\<close>
  by (simp add: find_typescript_files_def FILE_EXTENSIONS_def ends_with_def join_def)

section \<open>Writing a file back\<close>

text \<open>
  C5 fails on \<^verbatim>\<open>fix_planning_imports.py\<close>.  On a file with the content \<^verbatim>\<open>x\<close>,
  where no rule of any script has a match, \<open>fix_imports\<close> writes the file
  back with the content it read, whereas \<open>process_file\<close> in apply mode and
  \<open>update_imports_in_file\<close> leave the filesystem as it is.
\<close>

theorem fix_imports_writes_unchanged_file:
  \<open>fix_imports (fs_of [(''a.ts'', ''x'')]) ''a.ts''
     = Inr ((fs_of [(''a.ts'', ''x'')])\<lparr>written := [''a.ts'']\<rparr>) \<and>
   process_file IMPORT_RULES (fs_of [(''a.ts'', ''x'')]) ''a.ts'' False
     = Inr ((False, []), fs_of [(''a.ts'', ''x'')]) \<and>
   update_imports_in_file (fs_of [(''a.ts'', ''x'')]) ''a.ts''
     = Inr (False, fs_of [(''a.ts'', ''x'')])\<close>
  by (simp add: fix_imports_def update_imports_in_file_def fs_of_def replacements_def
      useAuth_pattern_def eval_simps IMPORT_RULES_def)

section \<open>Dry run and apply mode\<close>

text \<open>
  C6.  When the dry run of \<open>process_file\<close> fails, apply mode fails with the
  same error.  When the dry run returns a verdict and a change list, it
  returns the filesystem as it was, and apply mode returns the same verdict and
  the same change list; the two differ only in the write: for a modified file
  apply mode stores the new content and records the write, or fails with the
  write error when the file cannot be written.
\<close>

theorem dry_run_equivalence:
  "(case process_file rules fs p True of
      Inl e \<Rightarrow> process_file rules fs p False = Inl e
    | Inr (verdict, fs1) \<Rightarrow>
        fs1 = fs \<and>
        (if fst verdict \<and> p \<in> locked fs then process_file rules fs p False = Inl (WriteError p)
         else \<exists>fs2. process_file rules fs p False = Inr (verdict, fs2) \<and>
                (if fst verdict
                 then \<exists>c. fs2 = fs\<lparr>data := (data fs)(p \<mapsto> c), written := written fs @ [p]\<rparr>
                 else fs2 = fs)))"
  by (auto simp: process_file_def fs_write_def split: sum.splits)

theorem dry_run_equivalence_witness:
  \<open>process_file [(lit ''a'', [Lit ''b''], ''d'')] (fs_of [(''f.ts'', ''aXa'')]) ''f.ts'' True
     = Inr ((True, [(''d'', 2)]), fs_of [(''f.ts'', ''aXa'')]) \<and>
   process_file [(lit ''a'', [Lit ''b''], ''d'')] (fs_of [(''f.ts'', ''aXa'')]) ''f.ts'' False
     = Inr ((True, [(''d'', 2)]),
            (fs_of [(''f.ts'', ''bXb'')])\<lparr>written := [''f.ts'']\<rparr>)\<close>
  using dry_run_equivalence [of "[(lit ''a'', [Lit ''b''], ''d'')]" "fs_of [(''f.ts'', ''aXa'')]" "''f.ts''"]
  by (simp add: eval_simps fs_of_def)

section \<open>The Run Reporter\<close>

lemma main_loop_totals:
  "main_loop rules dry files fs m t out = (Inr (m', t', out'), fs') \<Longrightarrow>
   \<exists>new. out' = out @ new \<and> m' = m + length new \<and>
         t' = t + sum_list (map (length \<circ> snd) new) \<and> length new \<le> length files"
proof (induction files arbitrary: fs m t out)
  case Nil
  then show ?case by simp
next
  case (Cons f files)
  show ?case
  proof (cases "process_file rules fs f dry")
    case (Inl e)
    with Cons.prems show ?thesis by simp
  next
    case (Inr res)
    obtain modified changes fs1 where res: "res = ((modified, changes), fs1)"
      by (cases res) auto
    show ?thesis
    proof (cases modified)
      case True
      with Cons.prems Inr res
      have "main_loop rules dry files fs1 (m + 1) (t + length changes) (out @ [(f, changes)])
              = (Inr (m', t', out'), fs')" by simp
      from Cons.IH [OF this] obtain new where
        "out' = (out @ [(f, changes)]) @ new" "m' = m + 1 + length new"
        "t' = t + length changes + sum_list (map (length \<circ> snd) new)"
        "length new \<le> length files" by blast
      then show ?thesis
        by (intro exI [of _ "(f, changes) # new"]) (simp add: comp_def)
    next
      case False
      with Cons.prems Inr res
      have "main_loop rules dry files fs1 m t out = (Inr (m', t', out'), fs')" by simp
      from Cons.IH [OF this] show ?thesis by auto
    qed
  qed
qed

lemma main_loop_listed:
  "main_loop rules dry files fs m t out = (Inr (m', t', out'), fs') \<Longrightarrow>
   out' = out @ listed rules dry fs files"
proof (induction files arbitrary: fs m t out)
  case Nil
  then show ?case by simp
next
  case (Cons f files)
  show ?case
  proof (cases "process_file rules fs f dry")
    case (Inl e)
    with Cons.prems show ?thesis by simp
  next
    case (Inr res)
    obtain modified changes fs1 where res: "res = ((modified, changes), fs1)"
      by (cases res) auto
    show ?thesis
    proof (cases modified)
      case True
      with Cons.prems Inr res
      have "main_loop rules dry files fs1 (m + 1) (t + length changes) (out @ [(f, changes)])
              = (Inr (m', t', out'), fs')" by simp
      from Cons.IH [OF this] show ?thesis using Inr res True by simp
    next
      case False
      with Cons.prems Inr res
      have "main_loop rules dry files fs1 m t out = (Inr (m', t', out'), fs')" by simp
      from Cons.IH [OF this] show ?thesis using Inr res False by simp
    qed
  qed
qed

text \<open>
  C2, amended.  In the summary of a run that completes, the number of files
  scanned is the number of files discovered, the number of files modified is
  the number of files listed and is at most the number scanned, and the total
  is the number of changes listed (one per rule that changed a listed file),
  not the sum of their occurrence counts.
\<close>

theorem report_totals:
  assumes "main rules root_dir entries fs dry_run = (Inr rep, fs')"
  shows "filesScanned rep = length (find_typescript_files root_dir entries) \<and>
         filesModified rep \<le> filesScanned rep \<and>
         perFile rep = listed rules dry_run fs (find_typescript_files root_dir entries) \<and>
         filesModified rep = length (perFile rep) \<and>
         totalChanges rep = sum_list (map (length \<circ> snd) (perFile rep))"
proof -
  let ?files = "find_typescript_files root_dir entries"
  obtain m t out where loop: "main_loop rules dry_run ?files fs 0 0 [] = (Inr (m, t, out), fs')"
    and rep: "rep = \<lparr>filesScanned = length ?files, filesModified = m, totalChanges = t, perFile = out\<rparr>"
    using assms by (auto simp: main_def Let_def split: prod.splits sum.splits)
  from main_loop_totals [OF loop] have "m = length out" "t = sum_list (map (length \<circ> snd) out)"
    "length out \<le> length ?files" by auto
  moreover have "out = listed rules dry_run fs ?files"
    using main_loop_listed [OF loop] by simp
  ultimately show ?thesis using rep by simp
qed

lemma useAuth_twice_run:
  \<open>main IMPORT_RULES ''src'' [File ''a.ts'']
      (fs_of [(''src/a.ts'', ''from "./useAuth" from "./useAuth"'')]) True
   = (Inr \<lparr>filesScanned = 1, filesModified = 1, totalChanges = 1,
            perFile = [(''src/a.ts'', [(''useAuth hook'', 2)])]\<rparr>,
      fs_of [(''src/a.ts'', ''from "./useAuth" from "./useAuth"'')])\<close>
  by (simp add: main_def find_typescript_files_def FILE_EXTENSIONS_def ends_with_def join_def
      fs_of_def eval_simps IMPORT_RULES_def)

theorem report_totals_witness:
  \<open>main IMPORT_RULES ''src'' [File ''a.ts'']
      (fs_of [(''src/a.ts'', ''from "./useAuth" from "./useAuth"'')]) True
   = (Inr \<lparr>filesScanned = 1, filesModified = 1, totalChanges = 1,
            perFile = [(''src/a.ts'', [(''useAuth hook'', 2)])]\<rparr>,
      fs_of [(''src/a.ts'', ''from "./useAuth" from "./useAuth"'')]) \<and>
   perFile \<lparr>filesScanned = 1, filesModified = 1, totalChanges = 1,
            perFile = [(''src/a.ts'', [(''useAuth hook'', 2)])]\<rparr>
   = listed IMPORT_RULES True (fs_of [(''src/a.ts'', ''from "./useAuth" from "./useAuth"'')])
      (find_typescript_files ''src'' [File ''a.ts'']) \<and>
   totalChanges \<lparr>filesScanned = 1, filesModified = 1, totalChanges = 1,
            perFile = [(''src/a.ts'', [(''useAuth hook'', 2)])]\<rparr>
   = sum_list (map (length \<circ> snd) (perFile \<lparr>filesScanned = 1, filesModified = 1, totalChanges = 1,
            perFile = [(''src/a.ts'', [(''useAuth hook'', 2)])]\<rparr>))\<close>
  using report_totals [OF useAuth_twice_run] useAuth_twice_run
  by blast

text \<open>
  C2 as stated fails: a file with two occurrences of \<^verbatim>\<open>from "./useAuth"\<close> gives
  one change with the count 2, and the summary's total is 1.
\<close>

theorem total_counts_entries_not_occurrences:
  \<open>main IMPORT_RULES ''src'' [File ''a.ts'']
      (fs_of [(''src/a.ts'', ''from "./useAuth" from "./useAuth"'')]) True
   = (Inr \<lparr>filesScanned = 1, filesModified = 1, totalChanges = 1,
            perFile = [(''src/a.ts'', [(''useAuth hook'', 2)])]\<rparr>,
      fs_of [(''src/a.ts'', ''from "./useAuth" from "./useAuth"'')]) \<and>
   total_occurrences \<lparr>filesScanned = 1, filesModified = 1, totalChanges = 1,
            perFile = [(''src/a.ts'', [(''useAuth hook'', 2)])]\<rparr> = 2\<close>
  using useAuth_twice_run by (simp add: total_occurrences_def)

section \<open>Failures during a run\<close>

lemma main_loop_append:
  "main_loop rules dry (pre @ post) fs m t out =
     (case main_loop rules dry pre fs m t out of
        (Inl e, fs1) \<Rightarrow> (Inl e, fs1)
      | (Inr (m1, t1, out1), fs1) \<Rightarrow> main_loop rules dry post fs1 m1 t1 out1)"
  by (induction pre arbitrary: fs m t out) (auto split: sum.splits prod.splits)

lemma process_file_frame:
  assumes "process_file rules fs p dry = Inr (res, fs')"
  shows "locked fs' = locked fs"
    and "g \<noteq> p \<Longrightarrow> data fs' g = data fs g"
    and "set (written fs') \<subseteq> set (written fs) \<union> {p}"
    and "dom (data fs') = dom (data fs)"
  using assms
  by (auto simp: process_file_def fs_write_def fs_read_def split: sum.splits if_splits option.splits)

lemma main_loop_frame:
  assumes "main_loop rules dry files fs m t out = (res, fs')"
  shows "locked fs' = locked fs \<and> (\<forall>g. g \<notin> set files \<longrightarrow> data fs' g = data fs g) \<and>
         set (written fs') \<subseteq> set (written fs) \<union> set files \<and> dom (data fs') = dom (data fs)"
  using assms
proof (induction files arbitrary: fs m t out)
  case Nil
  then show ?case by simp
next
  case (Cons f files)
  show ?case
  proof (cases "process_file rules fs f dry")
    case (Inl e)
    with Cons.prems show ?thesis by auto
  next
    case (Inr r)
    obtain modified changes fs1 where r: "r = ((modified, changes), fs1)"
      by (cases r) auto
    note fr = process_file_frame [OF Inr [unfolded r]]
    have "\<exists>m1 t1 out1. main_loop rules dry files fs1 m1 t1 out1 = (res, fs')"
      using Cons.prems Inr r by (cases modified) auto
    then obtain m1 t1 out1 where "main_loop rules dry files fs1 m1 t1 out1 = (res, fs')"
      by blast
    from Cons.IH [OF this] fr show ?thesis by auto
  qed
qed

text \<open>
  C4, amended.  A failure of \<open>process_file\<close> on a discovered file is not
  caught.  When the files before it have been processed, the run ends at that
  file with its error and with the filesystem as those earlier files left it:
  no summary is returned, and only files before the failing one can have been
  written or changed.
\<close>

theorem io_failure_aborts_run:
  assumes "find_typescript_files root_dir entries = pre @ f # post"
    and "main_loop rules dry_run pre fs 0 0 [] = (Inr acc, fs1)"
    and "process_file rules fs1 f dry_run = Inl e"
  shows "main rules root_dir entries fs dry_run = (Inl e, fs1) \<and>
         (\<forall>g. g \<notin> set pre \<longrightarrow> data fs1 g = data fs g) \<and>
         set (written fs1) \<subseteq> set (written fs) \<union> set pre"
proof -
  obtain m t out where acc: "acc = (m, t, out)" by (cases acc)
  have "main_loop rules dry_run (pre @ f # post) fs 0 0 [] = (Inl e, fs1)"
    using assms(2,3) by (simp add: main_loop_append acc)
  then have "main rules root_dir entries fs dry_run = (Inl e, fs1)"
    using assms(1) by (simp add: main_def)
  with main_loop_frame [OF assms(2)] show ?thesis by simp
qed

theorem io_failure_aborts_run_witness:
  \<open>find_typescript_files ''src'' [File ''a.ts'', File ''b.ts''] = [''src/a.ts''] @ ''src/b.ts'' # [] \<and>
   main_loop [(lit ''a'', [Lit ''b''], ''d'')] False [''src/a.ts''] (fs_of [(''src/a.ts'', ''a'')]) 0 0 []
     = (Inr (1, 1, [(''src/a.ts'', [(''d'', 1)])]),
        (fs_of [(''src/a.ts'', ''b'')])\<lparr>written := [''src/a.ts'']\<rparr>) \<and>
   process_file [(lit ''a'', [Lit ''b''], ''d'')]
       ((fs_of [(''src/a.ts'', ''b'')])\<lparr>written := [''src/a.ts'']\<rparr>) ''src/b.ts'' False
     = Inl (ReadError ''src/b.ts'') \<and>
   main [(lit ''a'', [Lit ''b''], ''d'')] ''src'' [File ''a.ts'', File ''b.ts'']
       (fs_of [(''src/a.ts'', ''a'')]) False
     = (Inl (ReadError ''src/b.ts''), (fs_of [(''src/a.ts'', ''b'')])\<lparr>written := [''src/a.ts'']\<rparr>)\<close>
proof -
  have files: \<open>find_typescript_files ''src'' [File ''a.ts'', File ''b.ts'']
      = [''src/a.ts''] @ ''src/b.ts'' # []\<close>
    by (simp add: run_simps)
  have before: \<open>main_loop [(lit ''a'', [Lit ''b''], ''d'')] False [''src/a.ts'']
      (fs_of [(''src/a.ts'', ''a'')]) 0 0 []
     = (Inr (1, 1, [(''src/a.ts'', [(''d'', 1)])]),
        (fs_of [(''src/a.ts'', ''b'')])\<lparr>written := [''src/a.ts'']\<rparr>)\<close>
    by (simp add: run_simps)
  have failing: \<open>process_file [(lit ''a'', [Lit ''b''], ''d'')]
       ((fs_of [(''src/a.ts'', ''b'')])\<lparr>written := [''src/a.ts'']\<rparr>) ''src/b.ts'' False
     = Inl (ReadError ''src/b.ts'')\<close>
    by (simp add: run_simps)
  from io_failure_aborts_run [OF files before failing] files before failing
  show ?thesis by blast
qed

text \<open>
  C4 as stated fails: with \<^verbatim>\<open>src/a.ts\<close> unreadable the run ends with the read
  error and \<^verbatim>\<open>src/b.ts\<close> keeps its content, although a run over \<^verbatim>\<open>src/b.ts\<close>
  alone rewrites it.
\<close>

theorem unreadable_file_stops_run:
  \<open>main IMPORT_RULES ''src'' [File ''a.ts'', File ''b.ts'']
      (fs_of [(''src/b.ts'', ''from "./useAuth"'')]) False
   = (Inl (ReadError ''src/a.ts''), fs_of [(''src/b.ts'', ''from "./useAuth"'')]) \<and>
   main IMPORT_RULES ''src'' [File ''b.ts'']
      (fs_of [(''src/b.ts'', ''from "./useAuth"'')]) False
   = (Inr \<lparr>filesScanned = 1, filesModified = 1, totalChanges = 1,
            perFile = [(''src/b.ts'', [(''useAuth hook'', 1)])]\<rparr>,
      (fs_of [(''src/b.ts'', ''from "../../../features/auth/hooks"'')])\<lparr>written := [''src/b.ts'']\<rparr>)\<close>
  by (simp add: run_simps IMPORT_RULES_def)

section \<open>No validation of the registry\<close>

lemma apply_rules_ok:
  "\<forall>(p, t, d) \<in> set rules. balanced p 0 \<and> template_ok t p \<Longrightarrow>
   \<exists>c chs'. apply_rules rules content chs = Inr (c, chs')"
  by (induction rules content chs rule: apply_rules.induct)
     (auto simp: re_findall_def re_sub_def)

lemma apply_rules_Inr_balanced:
  "apply_rules rules content chs = Inr res \<Longrightarrow> (p, t, d) \<in> set rules \<Longrightarrow> balanced p 0"
  by (induction rules content chs rule: apply_rules.induct)
     (auto simp: re_findall_def re_sub_def split: if_splits)

lemma apply_rules_Inl:
  "apply_rules rules content chs = Inl e \<Longrightarrow> e = PatternError \<or> e = TemplateError"
  by (induction rules content chs rule: apply_rules.induct)
     (auto simp: re_findall_def re_sub_def split: if_splits)

lemma apply_rules_malformed:
  assumes "(p, t, d) \<in> set rules" and "\<not> balanced p 0"
  shows "apply_rules rules content chs = Inl PatternError \<or>
         apply_rules rules content chs = Inl TemplateError"
proof (cases "apply_rules rules content chs")
  case (Inl e)
  with apply_rules_Inl [OF Inl] show ?thesis by auto
next
  case (Inr res)
  with apply_rules_Inr_balanced [OF Inr assms(1)] assms(2) show ?thesis by simp
qed

lemma process_file_ok:
  assumes "\<forall>(p, t, d) \<in> set rules. balanced p 0 \<and> template_ok t p"
    and "f \<in> dom (data fs)" and "f \<notin> locked fs"
  shows "\<exists>r fs'. process_file rules fs f dry = Inr (r, fs')"
proof -
  obtain content where c: "data fs f = Some content" using assms(2) by auto
  obtain c' chs where "apply_rules rules content [] = Inr (c', chs)"
    using apply_rules_ok [OF assms(1)] by blast
  with c assms(3) show ?thesis
    by (auto simp: process_file_def fs_read_def fs_write_def)
qed

lemma main_loop_ok:
  assumes "\<forall>(p, t, d) \<in> set rules. balanced p 0 \<and> template_ok t p"
    and "\<forall>f \<in> set files. f \<in> dom (data fs) \<and> f \<notin> locked fs"
  shows "\<exists>acc fs'. main_loop rules dry files fs m t out = (Inr acc, fs')"
  using assms(2)
proof (induction files arbitrary: fs m t out)
  case Nil
  then show ?case by simp
next
  case (Cons f files)
  obtain r fs1 where pf: "process_file rules fs f dry = Inr (r, fs1)"
    using process_file_ok [OF assms(1), of f fs dry] Cons.prems by auto
  obtain modified changes where r: "r = (modified, changes)" by (cases r)
  have "\<forall>g \<in> set files. g \<in> dom (data fs1) \<and> g \<notin> locked fs1"
    using process_file_frame(1,4) [OF pf] Cons.prems by simp
  from Cons.IH [OF this] show ?case
    using pf r by (cases modified) auto
qed

lemma process_file_malformed:
  assumes "(p, t, d) \<in> set rules" and "\<not> balanced p 0"
  shows "process_file rules fs f dry =
           (if data fs f = None then Inl (ReadError f)
            else if apply_rules rules (the (data fs f)) [] = Inl PatternError then Inl PatternError
            else Inl TemplateError)"
  using apply_rules_malformed [OF assms, of "the (data fs f)" "[]"]
  by (auto simp: process_file_def fs_read_def split: option.splits)

text \<open>
  C3, amended.  The registry is never validated.  Every registry whose
  patterns and templates are well formed, patterns that match the empty text
  included, is run to the end when the discovered files can be read and
  written.  A registry with a malformed pattern is only noticed while the first
  discovered file is processed: with no file discovered the run completes with
  an empty report; otherwise the first file is read first, so the run ends with
  the read error if it cannot be read and else with the error of the pattern
  (or of a template used before it), and in each case nothing has been written.
\<close>

theorem registry_not_validated:
  "((\<forall>(p, t, d) \<in> set rules. balanced p 0 \<and> template_ok t p) \<and>
    (\<forall>f \<in> set (find_typescript_files root_dir entries). f \<in> dom (data fs) \<and> f \<notin> locked fs)
      \<longrightarrow> (\<exists>rep fs'. main rules root_dir entries fs dry_run = (Inr rep, fs'))) \<and>
   ((\<exists>(p, t, d) \<in> set rules. \<not> balanced p 0) \<longrightarrow>
      (find_typescript_files root_dir entries = [] \<longrightarrow>
         main rules root_dir entries fs dry_run =
           (Inr \<lparr>filesScanned = 0, filesModified = 0, totalChanges = 0, perFile = []\<rparr>, fs)) \<and>
      (\<forall>f rest. find_typescript_files root_dir entries = f # rest \<longrightarrow>
         snd (main rules root_dir entries fs dry_run) = fs \<and>
         (data fs f = None \<longrightarrow> fst (main rules root_dir entries fs dry_run) = Inl (ReadError f)) \<and>
         (data fs f \<noteq> None \<longrightarrow>
            fst (main rules root_dir entries fs dry_run) = Inl PatternError \<or>
            fst (main rules root_dir entries fs dry_run) = Inl TemplateError)))"
proof (intro conjI impI allI)
  assume "(\<forall>(p, t, d) \<in> set rules. balanced p 0 \<and> template_ok t p) \<and>
    (\<forall>f \<in> set (find_typescript_files root_dir entries). f \<in> dom (data fs) \<and> f \<notin> locked fs)"
  then obtain acc fs' where
    "main_loop rules dry_run (find_typescript_files root_dir entries) fs 0 0 [] = (Inr acc, fs')"
    using main_loop_ok [of rules "find_typescript_files root_dir entries" fs dry_run 0 0 "[]"]
    by blast
  then show "\<exists>rep fs'. main rules root_dir entries fs dry_run = (Inr rep, fs')"
    by (cases acc) (simp add: main_def)
next
  assume "find_typescript_files root_dir entries = []"
  then show "main rules root_dir entries fs dry_run =
           (Inr \<lparr>filesScanned = 0, filesModified = 0, totalChanges = 0, perFile = []\<rparr>, fs)"
    by (simp add: main_def)
next
  fix f rest
  assume bad: "\<exists>(p, t, d) \<in> set rules. \<not> balanced p 0"
    and files: "find_typescript_files root_dir entries = f # rest"
  from bad obtain p t d where r: "(p, t, d) \<in> set rules" "\<not> balanced p 0" by auto
  note pf = process_file_malformed [OF r, of fs f dry_run]
  show "snd (main rules root_dir entries fs dry_run) = fs"
    using pf files by (simp add: main_def split: if_splits)
  show "fst (main rules root_dir entries fs dry_run) = Inl (ReadError f)" if "data fs f = None"
    using pf files that by (simp add: main_def)
  show "fst (main rules root_dir entries fs dry_run) = Inl PatternError \<or>
        fst (main rules root_dir entries fs dry_run) = Inl TemplateError" if "data fs f \<noteq> None"
    using pf files that by (simp add: main_def split: if_splits)
qed

theorem registry_not_validated_witness:
  \<open>main [([Star Space], [Lit ''X''], ''d'')] ''src'' [File ''a.ts'']
      (fs_of [(''src/a.ts'', ''ab'')]) True
     = (Inr \<lparr>filesScanned = 1, filesModified = 1, totalChanges = 1,
              perFile = [(''src/a.ts'', [(''d'', 3)])]\<rparr>,
        fs_of [(''src/a.ts'', ''ab'')]) \<and>
   main [([Open], [], ''d'')] ''src'' [File ''a.ts''] (fs_of [(''src/a.ts'', ''ab'')]) False
     = (Inl PatternError, fs_of [(''src/a.ts'', ''ab'')])\<close>
proof -
  have files: \<open>find_typescript_files ''src'' [File ''a.ts''] = [''src/a.ts'']\<close>
    by (simp add: find_typescript_files_def FILE_EXTENSIONS_def ends_with_def join_def)
  have completes: \<open>\<exists>rep fs'. main [([Star Space], [Lit ''X''], ''d'')] ''src'' [File ''a.ts'']
      (fs_of [(''src/a.ts'', ''ab'')]) True = (Inr rep, fs')\<close>
    using registry_not_validated [of "[([Star Space], [Lit ''X''], ''d'')]" "''src''"
        "[File ''a.ts'']" "fs_of [(''src/a.ts'', ''ab'')]" True, THEN conjunct1] files
    by (simp add: fs_of_def)
  have aborts: \<open>snd (main [([Open], [], ''d'')] ''src'' [File ''a.ts'']
      (fs_of [(''src/a.ts'', ''ab'')]) False) = fs_of [(''src/a.ts'', ''ab'')]\<close>
    using registry_not_validated [of "[([Open], [], ''d'')]" "''src''"
        "[File ''a.ts'']" "fs_of [(''src/a.ts'', ''ab'')]" False, THEN conjunct2] files
    by simp
  have run: \<open>main [([Star Space], [Lit ''X''], ''d'')] ''src'' [File ''a.ts'']
      (fs_of [(''src/a.ts'', ''ab'')]) True
     = (Inr \<lparr>filesScanned = 1, filesModified = 1, totalChanges = 1,
              perFile = [(''src/a.ts'', [(''d'', 3)])]\<rparr>,
        fs_of [(''src/a.ts'', ''ab'')])\<close>
    by (simp add: run_simps)
  have bad: \<open>main [([Open], [], ''d'')] ''src'' [File ''a.ts''] (fs_of [(''src/a.ts'', ''ab'')]) False
     = (Inl PatternError, fs_of [(''src/a.ts'', ''ab'')])\<close>
    by (simp add: run_simps)
  from completes aborts run bad show ?thesis by blast
qed

text \<open>
  C3 as stated fails.  The pattern \<^verbatim>\<open>\s*\<close> matches the empty text at the start
  of \<^verbatim>\<open>ab\<close>; a registry holding it is run in apply mode and the file is
  rewritten to \<^verbatim>\<open>XaXbX\<close>.  With the malformed pattern \<^verbatim>\<open>(\<close> the missing file
  \<^verbatim>\<open>src/a.ts\<close> gives a read error, so the file is read before the pattern is
  looked at, and on an empty tree the run completes.
\<close>

theorem invalid_rules_are_run:
  \<open>match_here [Star Space] ''ab'' 0 [] False = Some (0, []) \<and>
   main [([Star Space], [Lit ''X''], ''d'')] ''src'' [File ''a.ts'']
      (fs_of [(''src/a.ts'', ''ab'')]) False
     = (Inr \<lparr>filesScanned = 1, filesModified = 1, totalChanges = 1,
              perFile = [(''src/a.ts'', [(''d'', 3)])]\<rparr>,
        (fs_of [(''src/a.ts'', ''XaXbX'')])\<lparr>written := [''src/a.ts'']\<rparr>) \<and>
   main [([Open], [], ''d'')] ''src'' [File ''a.ts''] (fs_of []) False
     = (Inl (ReadError ''src/a.ts''), fs_of []) \<and>
   main [([Open], [], ''d'')] ''src'' [] (fs_of []) False
     = (Inr \<lparr>filesScanned = 0, filesModified = 0, totalChanges = 0, perFile = []\<rparr>, fs_of [])\<close>
  by (simp add: run_simps)

section \<open>The prefix computed by \<^verbatim>\<open>update_imports.py\<close>\<close>

lemma length_concat_replicate: "length (concat (replicate k xs)) = k * length xs"
  by (induction k) simp_all

lemma rel_path_count:
  "rel_path p = concat (replicate (count_list p CHR ''/'' - 1) ''../'')"
  by (simp add: rel_path_def depth_of_def nat_diff_distrib')

lemma length_replacement: "length (replacement p) = 45 + 3 * (count_list p CHR ''/'' - 1)"
  by (simp add: replacement_def rel_path_count length_concat_replicate)

lemma useAuth_sub:
  "re_sub useAuth_pattern [Lit r] content
     = Inr (replaced_by r (scan useAuth_pattern content False))"
  by (simp add: re_sub_def useAuth_pattern_def lit_def quote_def rebuild_Lit)

lemma replaced_by_differs:
  assumes "hits segs \<noteq> []" and "length r \<noteq> length r'"
  shows "replaced_by r segs \<noteq> replaced_by r' segs"
proof
  assume "replaced_by r segs = replaced_by r' segs"
  then have "length (replaced_by r segs) = length (replaced_by r' segs)" by simp
  then have "length (hits segs) * length r = length (hits segs) * length r'"
    by (simp add: length_replaced_by)
  with assms show False by simp
qed

text \<open>
  C10, amended.  The replacement is the import of \<^verbatim>\<open>useAuth\<close> from
  \<^verbatim>\<open>features/auth/hooks\<close> behind a prefix of \<^verbatim>\<open>../\<close> repeated as many times as
  the path has \<^verbatim>\<open>/\<close> separators beyond the first (none for a path with no
  separator); it does not depend on the text matched.  The new content is the
  old one with every match of the pattern replaced by it, and it is written
  when it differs.  For a content with at least one match, two paths whose
  prefixes have different lengths give different new contents.
\<close>

theorem update_imports_prefix_by_depth:
  \<open>replacement p = ''import { useAuth } from '' @ [CHR 0x27]
       @ concat (replicate (count_list p CHR ''/'' - 1) ''../'') @ ''features/auth/hooks'' @ [CHR 0x27] \<and>
   original (scan useAuth_pattern content False) = content \<and>
   (data fs p = Some content \<and> p \<notin> locked fs \<longrightarrow>
      update_imports_in_file fs p =
        (if replaced_by (replacement p) (scan useAuth_pattern content False) \<noteq> content
         then Inr (True, fs\<lparr>data := (data fs)(p \<mapsto>
                     replaced_by (replacement p) (scan useAuth_pattern content False)),
                   written := written fs @ [p]\<rparr>)
         else Inr (False, fs))) \<and>
   (hits (scan useAuth_pattern content False) \<noteq> [] \<and>
    count_list p CHR ''/'' - 1 \<noteq> count_list q CHR ''/'' - 1 \<longrightarrow>
      replaced_by (replacement p) (scan useAuth_pattern content False)
        \<noteq> replaced_by (replacement q) (scan useAuth_pattern content False))\<close>
proof (intro conjI impI)
  show \<open>replacement p = ''import { useAuth } from '' @ [CHR 0x27]
       @ concat (replicate (count_list p CHR ''/'' - 1) ''../'') @ ''features/auth/hooks'' @ [CHR 0x27]\<close>
    by (simp add: replacement_def rel_path_count)
  show "original (scan useAuth_pattern content False) = content"
    by (rule scan_original)
next
  assume "data fs p = Some content \<and> p \<notin> locked fs"
  then show "update_imports_in_file fs p =
        (if replaced_by (replacement p) (scan useAuth_pattern content False) \<noteq> content
         then Inr (True, fs\<lparr>data := (data fs)(p \<mapsto>
                     replaced_by (replacement p) (scan useAuth_pattern content False)),
                   written := written fs @ [p]\<rparr>)
         else Inr (False, fs))"
    by (simp add: update_imports_in_file_def fs_read_def fs_write_def useAuth_sub)
next
  assume "hits (scan useAuth_pattern content False) \<noteq> [] \<and>
    count_list p CHR ''/'' - 1 \<noteq> count_list q CHR ''/'' - 1"
  then show "replaced_by (replacement p) (scan useAuth_pattern content False)
        \<noteq> replaced_by (replacement q) (scan useAuth_pattern content False)"
    by (intro replaced_by_differs) (simp_all add: length_replacement)
qed

theorem update_imports_prefix_by_depth_witness:
  \<open>update_imports_in_file (fs_of [(''src/b/a.ts'', ''import { useAuth } from "../hooks/useAuth"'')])
       ''src/b/a.ts''
     = Inr (True, (fs_of [(''src/b/a.ts'', ''import { useAuth } from '' @ [CHR 0x27]
                            @ ''../features/auth/hooks'' @ [CHR 0x27])])\<lparr>written := [''src/b/a.ts'']\<rparr>) \<and>
   hits (scan useAuth_pattern ''import { useAuth } from "../hooks/useAuth"'' False)
     = [''import { useAuth } from "../hooks/useAuth"''] \<and>
   replaced_by (replacement ''src/b/a.ts'')
       (scan useAuth_pattern ''import { useAuth } from "../hooks/useAuth"'' False)
     = ''import { useAuth } from '' @ [CHR 0x27] @ ''../features/auth/hooks'' @ [CHR 0x27] \<and>
   replaced_by (replacement ''src/a.ts'')
       (scan useAuth_pattern ''import { useAuth } from "../hooks/useAuth"'' False)
     = ''import { useAuth } from '' @ [CHR 0x27] @ ''features/auth/hooks'' @ [CHR 0x27]\<close>
  using update_imports_prefix_by_depth [of "''src/b/a.ts''"
      \<open>''import { useAuth } from "../hooks/useAuth"''\<close>
      \<open>fs_of [(''src/b/a.ts'', ''import { useAuth } from "../hooks/useAuth"'')]\<close> "''src/a.ts''"]
  by (simp add: update_simps)

text \<open>
  C10 as stated fails.  The paths \<^verbatim>\<open>a.ts\<close> and \<^verbatim>\<open>src/a.ts\<close> have zero and one
  separator and the same content with one match is rewritten to the same text,
  with an empty prefix; and a content with no match is left as it is at
  \<^verbatim>\<open>src/a.ts\<close> and at \<^verbatim>\<open>src/b/a.ts\<close>.
\<close>

theorem same_output_at_different_depths:
  \<open>count_list ''a.ts'' CHR ''/'' = 0 \<and> count_list ''src/a.ts'' CHR ''/'' = 1 \<and>
   update_imports_in_file (fs_of [(''a.ts'', ''import { useAuth } from "../hooks/useAuth"'')]) ''a.ts''
     = Inr (True, (fs_of [(''a.ts'', ''import { useAuth } from '' @ [CHR 0x27]
                            @ ''features/auth/hooks'' @ [CHR 0x27])])\<lparr>written := [''a.ts'']\<rparr>) \<and>
   update_imports_in_file (fs_of [(''src/a.ts'', ''import { useAuth } from "../hooks/useAuth"'')]) ''src/a.ts''
     = Inr (True, (fs_of [(''src/a.ts'', ''import { useAuth } from '' @ [CHR 0x27]
                            @ ''features/auth/hooks'' @ [CHR 0x27])])\<lparr>written := [''src/a.ts'']\<rparr>) \<and>
   update_imports_in_file (fs_of [(''src/a.ts'', ''x'')]) ''src/a.ts''
     = Inr (False, fs_of [(''src/a.ts'', ''x'')]) \<and>
   update_imports_in_file (fs_of [(''src/b/a.ts'', ''x'')]) ''src/b/a.ts''
     = Inr (False, fs_of [(''src/b/a.ts'', ''x'')])\<close>
  by (simp add: update_simps)

end
